theory Spec2Isabelle
  imports Main "HOL-Library.Product_Lexorder" "HOL-Library.Multiset"
begin

section \<open>Characters and strings as the views use them\<close>

text \<open>
  Titles, header values and payload strings are Python \<^verbatim>\<open>str\<close> values; they are
  modelled as \<^typ>\<open>string\<close> over ASCII.  The character classes below are the ASCII part of
  what \<^verbatim>\<open>re\<close> and \<^verbatim>\<open>str\<close> use for text patterns: \<^verbatim>\<open>\d\<close> is 0-9,
  \<^verbatim>\<open>\s\<close> and \<^verbatim>\<open>str.strip()\<close> take tab, LF, VT, FF, CR, the separators 0x1C-0x1F
  and the blank, \<^verbatim>\<open>\w\<close> is a letter, a digit or the underscore.
\<close>

definition is_digit :: "char \<Rightarrow> bool" where
  "is_digit c = (c \<in> set ''0123456789'')"

definition is_space :: "char \<Rightarrow> bool" where
  "is_space c = (of_char c \<in> {9, 10, 11, 12, 13, 28, 29, 30, 31, 32 :: nat})"

definition is_alpha :: "char \<Rightarrow> bool" where
  "is_alpha c = (c \<in> set ''abcdefghijklmnopqrstuvwxyzABCDEFGHIJKLMNOPQRSTUVWXYZ'')"

definition is_word :: "char \<Rightarrow> bool" where
  "is_word c = (is_alpha c \<or> is_digit c \<or> c = CHR ''_'')"

definition lower_char :: "char \<Rightarrow> char" where
  "lower_char c =
     (case map_of (zip ''ABCDEFGHIJKLMNOPQRSTUVWXYZ'' ''abcdefghijklmnopqrstuvwxyz'') c of
        Some l \<Rightarrow> l
      | None \<Rightarrow> c)"

text \<open>\<^verbatim>\<open>s.lower()\<close>\<close>

definition lower :: "string \<Rightarrow> string" where
  "lower s = map lower_char s"

text \<open>\<^verbatim>\<open>s.strip()\<close>\<close>

definition strip :: "string \<Rightarrow> string" where
  "strip s = rev (dropWhile is_space (rev (dropWhile is_space s)))"

text \<open>\<^verbatim>\<open>sub in s\<close> for strings: \<open>sub\<close> occurs as a contiguous piece of \<open>s\<close>.\<close>

fun str_in :: "string \<Rightarrow> string \<Rightarrow> bool" where
  "str_in sub [] = (sub = [])"
| "str_in sub (c # cs) = (take (length sub) (c # cs) = sub \<or> str_in sub cs)"

section \<open>Regular expressions, as \<^verbatim>\<open>re\<close> matches them\<close>

text \<open>
  The patterns of the views are built from single characters, the classes \<^verbatim>\<open>\d\<close> and
  \<^verbatim>\<open>\s\<close>, sequence, the greedy \<^verbatim>\<open>?\<close>, \<^verbatim>\<open>*\<close> and \<^verbatim>\<open>+\<close>, one capturing
  group, \<^verbatim>\<open>\b\<close> and \<^verbatim>\<open>^\<close>.
\<close>

datatype cls = Digit | Space

fun in_cls :: "cls \<Rightarrow> char \<Rightarrow> bool" where
  "in_cls Digit c = is_digit c"
| "in_cls Space c = is_space c"

datatype regex =
    Eps
  | Chr char
  | Cls cls
  | Seq regex regex
  | Opt regex
  | Many regex
  | Many1 regex
  | Grp regex
  | Bnd
  | Bol

text \<open>
  A backtracking matcher.  The state of an attempt is the character before the current
  position (\<open>None\<close> at the start of the string), the text still to be read, and the
  text captured by group 1.  \<open>rmatch r st\<close> lists the states in which \<open>r\<close> can end when
  started in \<open>st\<close>, in the order in which \<^verbatim>\<open>re\<close> tries them: a greedy operator tries
  the longer alternative first.
\<close>

type_synonym mstate = "char option \<times> string \<times> string"

fun is_word_opt :: "char option \<Rightarrow> bool" where
  "is_word_opt None = False"
| "is_word_opt (Some c) = is_word c"

fun next_char :: "string \<Rightarrow> char option" where
  "next_char [] = None"
| "next_char (x # xs) = Some x"

fun step_char :: "(char \<Rightarrow> bool) \<Rightarrow> mstate \<Rightarrow> mstate list" where
  "step_char P (p, [], g) = []"
| "step_char P (p, x # xs, g) = (if P x then [(Some x, xs, g)] else [])"

text \<open>
  Greedy repetition of \<open>f\<close>, at most \<open>n\<close> times: one more round first, then stopping here.
  A round that reads nothing is not repeated.
\<close>

fun many :: "(mstate \<Rightarrow> mstate list) \<Rightarrow> nat \<Rightarrow> mstate \<Rightarrow> mstate list" where
  "many f 0 st = [st]"
| "many f (Suc n) st =
     concat (map (many f n)
       (filter (\<lambda>st'. length (fst (snd st')) < length (fst (snd st))) (f st))) @ [st]"

primrec rmatch :: "regex \<Rightarrow> mstate \<Rightarrow> mstate list" where
  "rmatch Eps = (\<lambda>st. [st])"
| "rmatch (Chr c) = step_char (\<lambda>x. x = c)"
| "rmatch (Cls k) = step_char (in_cls k)"
| "rmatch (Seq a b) = (\<lambda>st. concat (map (rmatch b) (rmatch a st)))"
| "rmatch (Opt a) = (\<lambda>st. rmatch a st @ [st])"
| "rmatch (Many a) = (\<lambda>st. many (rmatch a) (length (fst (snd st))) st)"
| "rmatch (Many1 a) =
     (\<lambda>st. concat (map (\<lambda>st'. many (rmatch a) (length (fst (snd st'))) st') (rmatch a st)))"
| "rmatch (Grp a) =
     (\<lambda>st. map (\<lambda>(p, r, g). (p, r, take (length (fst (snd st)) - length r) (fst (snd st))))
               (rmatch a st))"
| "rmatch Bnd =
     (\<lambda>st. if is_word_opt (fst st) \<noteq> is_word_opt (next_char (fst (snd st))) then [st] else [])"
| "rmatch Bol = (\<lambda>st. if fst st = None then [st] else [])"

text \<open>
  A literal string, as a sequence of its characters.
\<close>

definition lit :: "string \<Rightarrow> regex" where
  "lit s = foldr (\<lambda>c r. Seq (Chr c) r) s Eps"

text \<open>
  A match object: \<^verbatim>\<open>m.group(0)\<close> and \<^verbatim>\<open>m.group(1)\<close>.  In each pattern of the views group 1
  lies on every path, so a match always carries it.  \<open>match_at\<close> takes the first way the
  pattern matches at one position; \<^verbatim>\<open>re.match\<close> tries the start of the string only,
  \<^verbatim>\<open>re.search\<close> every position from left to right.
\<close>

record rematch =
  group0 :: string
  group1 :: string

definition match_at :: "regex \<Rightarrow> char option \<Rightarrow> string \<Rightarrow> rematch option" where
  "match_at r p s =
     (case rmatch r (p, s, []) of
        [] \<Rightarrow> None
      | (p', rest, g) # _ \<Rightarrow> Some \<lparr>group0 = take (length s - length rest) s, group1 = g\<rparr>)"

definition re_match :: "regex \<Rightarrow> string \<Rightarrow> rematch option" where
  "re_match r s = match_at r None s"

fun search_from :: "regex \<Rightarrow> char option \<Rightarrow> string \<Rightarrow> rematch option" where
  "search_from r p [] = match_at r p []"
| "search_from r p (x # xs) =
     (case match_at r p (x # xs) of
        Some m \<Rightarrow> Some m
      | None \<Rightarrow> search_from r (Some x) xs)"

definition re_search :: "regex \<Rightarrow> string \<Rightarrow> rematch option" where
  "re_search r s = search_from r None s"

text \<open>
  \<^verbatim>\<open>s.replace(old, '')\<close>: every occurrence of \<open>old\<close>, from the left, is taken out.
\<close>

function replace_del :: "string \<Rightarrow> string \<Rightarrow> string" where
  "replace_del old [] = []"
| "replace_del old (c # cs) =
     (if old \<noteq> [] \<and> take (length old) (c # cs) = old
      then replace_del old (drop (length old) (c # cs))
      else c # replace_del old cs)"
  by pat_completeness auto
termination
  by (relation "measure (\<lambda>(old, s). length s)") (auto simp: neq_Nil_conv)

text \<open>
  \<^verbatim>\<open>int(s)\<close> for a string: blanks around it are dropped, a sign may lead, and the digits may
  be separated by single underscores; \<open>None\<close> is \<^verbatim>\<open>ValueError\<close>.  (The interpreter's
  optional limit on the length of a digit string is not modelled.)
\<close>

definition digit_val :: "char \<Rightarrow> nat" where
  "digit_val c = of_char c - 48"

definition dec_value :: "string \<Rightarrow> int" where
  "dec_value ds = int (foldl (\<lambda>a c. 10 * a + digit_val c) 0 ds)"

definition is_int_space :: "char \<Rightarrow> bool" where
  "is_int_space c = (of_char c \<in> {9, 10, 11, 12, 13, 32 :: nat})"

fun digits_ok :: "string \<Rightarrow> bool" where
  "digits_ok [] = False"
| "digits_ok [c] = is_digit c"
| "digits_ok (c # d # cs) =
     (is_digit c \<and> (if d = CHR ''_'' then digits_ok cs else digits_ok (d # cs)))"

definition py_int :: "string \<Rightarrow> int option" where
  "py_int s =
     (let t = rev (dropWhile is_int_space (rev (dropWhile is_int_space s)));
          (neg, u) = (case t of
                        [] \<Rightarrow> (False, [])
                      | c # cs \<Rightarrow> if c = CHR ''-'' then (True, cs)
                                  else if c = CHR ''+'' then (False, cs) else (False, t))
      in if digits_ok u
         then Some ((if neg then - 1 else 1) * dec_value (filter (\<lambda>c. c \<noteq> CHR ''_'') u))
         else None)"

text \<open>
  The four patterns:
  \<^verbatim>\<open>s(?:eason)?\s*(\d+)\<close>, \<^verbatim>\<open>e(?:pisode)?\s*(\d+)\<close>, \<^verbatim>\<open>\b(\d+)\b\<close> and \<^verbatim>\<open>^(\d+)\.\<close>
\<close>

definition season_re :: regex where
  "season_re = Seq (Chr CHR ''s'') (Seq (Opt (lit ''eason''))
                 (Seq (Many (Cls Space)) (Grp (Many1 (Cls Digit)))))"

definition episode_re :: regex where
  "episode_re = Seq (Chr CHR ''e'') (Seq (Opt (lit ''pisode''))
                  (Seq (Many (Cls Space)) (Grp (Many1 (Cls Digit)))))"

definition number_re :: regex where
  "number_re = Seq Bnd (Seq (Grp (Many1 (Cls Digit))) Bnd)"

definition order_re :: regex where
  "order_re = Seq Bol (Seq (Grp (Many1 (Cls Digit))) (Chr CHR ''.''))"

text \<open>
  \<^verbatim>\<open>try: x = int(s)  except ValueError: pass\<close> leaves \<open>x\<close> as it was.
\<close>

definition int_or :: "string \<Rightarrow> int \<Rightarrow> int" where
  "int_or s dflt = (case py_int s of Some n \<Rightarrow> n | None \<Rightarrow> dflt)"

text \<open>
  \<^verbatim>\<open>extract_episode_number\<close> and \<^verbatim>\<open>extract_movie_order_number\<close>.  The argument is
  \<open>None\<close> for a title that is \<^verbatim>\<open>None\<close>; \<^verbatim>\<open>title or ""\<close> makes it the empty string.
\<close>

definition extract_episode_number :: "string option \<Rightarrow> int \<times> int" where
  "extract_episode_number title_arg =
     (let title = lower (case title_arg of None \<Rightarrow> [] | Some t \<Rightarrow> t);
          season_match = re_search season_re title;
          season_num = (case season_match of None \<Rightarrow> 1 | Some m \<Rightarrow> int_or (group1 m) 1);
          episode_match = re_search episode_re title;
          episode_num = (case episode_match of None \<Rightarrow> 9999 | Some m \<Rightarrow> int_or (group1 m) 9999);
          episode_num =
            (case season_match of
               None \<Rightarrow> episode_num
             | Some sm \<Rightarrow>
                 if episode_num = 9999 then
                   (let cleaned_title = replace_del (group0 sm) title in
                    case re_search number_re cleaned_title of
                      None \<Rightarrow> episode_num
                    | Some m \<Rightarrow> int_or (group1 m) episode_num)
                 else episode_num)
      in (season_num, episode_num))"

definition extract_movie_order_number :: "string option \<Rightarrow> int" where
  "extract_movie_order_number title_arg =
     (let title = (case title_arg of None \<Rightarrow> [] | Some t \<Rightarrow> t) in
      case re_match order_re (strip title) of
        Some m \<Rightarrow> int_or (group1 m) 9999
      | None \<Rightarrow> 9999)"

text \<open>
  The pair as the specification words it, for comparison with \<open>extract_episode_number\<close>:
  the season from the season marker (default 1); the episode from the episode marker when
  there is one; without an episode marker but with a season marker, the first standalone
  integer left once the season marker's text is removed; 9999 when nothing gives an episode.
\<close>

definition episode_by_markers :: "string option \<Rightarrow> int \<times> int" where
  "episode_by_markers title_arg =
     (let title = lower (case title_arg of None \<Rightarrow> [] | Some t \<Rightarrow> t);
          season_marker = re_search season_re title;
          episode_marker = re_search episode_re title
      in (case season_marker of None \<Rightarrow> 1 | Some m \<Rightarrow> int_or (group1 m) 1,
          case episode_marker of
            Some m \<Rightarrow> int_or (group1 m) 9999
          | None \<Rightarrow>
              (case season_marker of
                 None \<Rightarrow> 9999
               | Some sm \<Rightarrow>
                   (case re_search number_re (replace_del (group0 sm) title) of
                      None \<Rightarrow> 9999
                    | Some m \<Rightarrow> int_or (group1 m) 9999))))"

section \<open>JSON payloads\<close>

text \<open>
  What \<^verbatim>\<open>json.loads\<close> returns: \<^verbatim>\<open>None\<close>, a bool, an int, a str, a list or a dict
  (numbers with a fraction or an exponent are left out).  A dict is kept as the list of its
  members in the order of the text; a later member overrides an earlier one of the same name.
\<close>

datatype json =
    JNull
  | JBool bool
  | JInt int
  | JStr string
  | JList "json list"
  | JDict "(string \<times> json) list"

text \<open>Python's truth value of a payload value, as \<^verbatim>\<open>not x\<close> and \<^verbatim>\<open>x or y\<close> test it.\<close>

fun truthy :: "json \<Rightarrow> bool" where
  "truthy JNull = False"
| "truthy (JBool b) = b"
| "truthy (JInt n) = (n \<noteq> 0)"
| "truthy (JStr s) = (s \<noteq> [])"
| "truthy (JList xs) = (xs \<noteq> [])"
| "truthy (JDict kvs) = (kvs \<noteq> [])"

fun type_name :: "json \<Rightarrow> string" where
  "type_name JNull = ''NoneType''"
| "type_name (JBool b) = ''bool''"
| "type_name (JInt n) = ''int''"
| "type_name (JStr s) = ''str''"
| "type_name (JList xs) = ''list''"
| "type_name (JDict kvs) = ''dict''"

text \<open>The exceptions the views can meet, and \<^verbatim>\<open>str(e)\<close>.\<close>

datatype exn = AttributeError string string

fun str_exn :: "exn \<Rightarrow> string" where
  "str_exn (AttributeError ty attr) =
     [CHR 0x27] @ ty @ [CHR 0x27] @ '' object has no attribute '' @ [CHR 0x27] @ attr @ [CHR 0x27]"

text \<open>
  \<^verbatim>\<open>data.get(key)\<close>: the member of a dict, \<^verbatim>\<open>None\<close> when it has none of that name; every
  other value has no attribute \<^verbatim>\<open>get\<close>.
\<close>

fun dict_get :: "json \<Rightarrow> string \<Rightarrow> exn + json" where
  "dict_get (JDict kvs) key =
     (case map_of (rev kvs) key of None \<Rightarrow> Inr JNull | Some v \<Rightarrow> Inr v)"
| "dict_get v key = Inl (AttributeError (type_name v) ''get'')"

section \<open>Requests and responses\<close>

text \<open>
  The parts of a request the views read.  \<open>body\<close> is the outcome of
  \<^verbatim>\<open>json.loads(request.body)\<close>, \<open>None\<close> standing for \<^verbatim>\<open>JSONDecodeError\<close>;
  a header of \<^verbatim>\<open>request.META\<close> that is absent is \<open>None\<close>; \<open>user\<close> is
  \<open>Some (email, username)\<close> for an authenticated user; \<open>now\<close> is what
  \<^verbatim>\<open>timezone.now()\<close> returns while the request is served.
\<close>

record request =
  request_method :: string
  body :: "json option"
  http_user_agent :: "string option"
  http_x_forwarded_for :: "string option"
  remote_addr :: "string option"
  user :: "(string \<times> string) option"
  get_page_param :: "string option"
  now :: nat

datatype response =
    JsonResponse "(string \<times> json) list" nat
  | HttpResponseNotAllowed
  | HttpResponseRedirect string
  | HttpResponseNotFound

fun status_code :: "response \<Rightarrow> nat" where
  "status_code (JsonResponse content st) = st"
| "status_code HttpResponseNotAllowed = 405"
| "status_code (HttpResponseRedirect url) = 302"
| "status_code HttpResponseNotFound = 404"

text \<open>\<^verbatim>\<open>request.META.get("HTTP_USER_AGENT", "")\<close>\<close>

definition user_agent :: "request \<Rightarrow> string" where
  "user_agent req = (case http_user_agent req of None \<Rightarrow> [] | Some ua \<Rightarrow> ua)"

section \<open>Install tracking\<close>

definition detect_device_name :: "string \<Rightarrow> string" where
  "detect_device_name user_agent_str =
     (let ua = lower user_agent_str in
      if str_in ''windows'' ua then ''Windows PC/Laptop''
      else if str_in ''android'' ua then ''Android''
      else if str_in ''iphone'' ua \<or> str_in ''ipad'' ua \<or> str_in ''ios'' ua then ''iOS''
      else if str_in ''mac'' ua then ''Mac''
      else ''Unknown'')"

text \<open>
  An InstallTracker row.  The model class is not part of the sources; the fields are the
  ones the views assign, holding the values as assigned.  The table is the list of its rows;
  \<open>device_id\<close> is its unique key, so a lookup takes the row with that key and saving a row
  replaces the row of the same key.
\<close>

record tracker =
  device_id :: json
  install_count :: int
  deleted_count :: int
  device_name :: json
  device_info :: string
  last_action :: string
  updated_at :: nat

type_synonym trackers = "tracker list"

text \<open>\<^verbatim>\<open>InstallTracker.objects.get(device_id=d)\<close>; \<open>None\<close> is \<^verbatim>\<open>DoesNotExist\<close>.\<close>

definition objects_get :: "trackers \<Rightarrow> json \<Rightarrow> tracker option" where
  "objects_get rows d = find (\<lambda>t. device_id t = d) rows"

text \<open>\<^verbatim>\<open>tracker.save()\<close> for a row already in the table.\<close>

fun save :: "tracker \<Rightarrow> trackers \<Rightarrow> trackers" where
  "save t [] = []"
| "save t (r # rows) = (if device_id r = device_id t then t # rows else r # save t rows)"

text \<open>\<^verbatim>\<open>InstallTracker.objects.filter(install_count=1).count()\<close>\<close>

definition total_active_installs :: "trackers \<Rightarrow> int" where
  "total_active_installs rows = int (length (filter (\<lambda>t. install_count t = 1) rows))"

text \<open>
  \<^verbatim>\<open>track_install\<close>, under \<^verbatim>\<open>@require_POST\<close>.  The result is the response and the
  table after the call.  On creation every field is assigned before the row is saved, so
  the defaults of the model class never show.
\<close>

definition track_install :: "request \<Rightarrow> trackers \<Rightarrow> response \<times> trackers" where
  "track_install req rows =
     (if request_method req \<noteq> ''POST'' then (HttpResponseNotAllowed, rows)
      else case body req of
        None \<Rightarrow>
          (JsonResponse [(''status'', JStr ''error''), (''message'', JStr ''Invalid JSON'')] 400, rows)
      | Some data \<Rightarrow>
          (case dict_get data ''device_id'' of
             Inl e \<Rightarrow>
               (JsonResponse [(''status'', JStr ''error''), (''message'', JStr (str_exn e))] 500, rows)
           | Inr device_id_str \<Rightarrow>
               (case dict_get data ''device_name'' of
                  Inl e \<Rightarrow>
                    (JsonResponse [(''status'', JStr ''error''), (''message'', JStr (str_exn e))] 500,
                     rows)
                | Inr name \<Rightarrow>
                    (let dev_name =
                           (if truthy name then name else JStr (detect_device_name (user_agent req)))
                     in
                     if \<not> truthy device_id_str then
                       (JsonResponse
                          [(''status'', JStr ''error''), (''message'', JStr ''Device ID missing'')] 400,
                        rows)
                     else
                       (let (action_message, rows') =
                              (case objects_get rows device_id_str of
                                 None \<Rightarrow>
                                   (''New install tracked'',
                                    rows @
                                    [\<lparr>device_id = device_id_str, install_count = 1, deleted_count = 0,
                                      device_name = dev_name, device_info = user_agent req,
                                      last_action = ''install'', updated_at = now req\<rparr>])
                               | Some t \<Rightarrow>
                                   (if install_count t = 0 then
                                      (''Re-install tracked (count restored)'',
                                       save (t\<lparr>install_count := 1, device_name := dev_name,
                                                last_action := ''reinstall'',
                                                updated_at := now req\<rparr>) rows)
                                    else
                                      (''Already tracked (count maintained)'',
                                       save (t\<lparr>last_action := ''install (re-open)'',
                                                device_name := dev_name,
                                                updated_at := now req\<rparr>) rows)))
                        in
                        (JsonResponse
                           [(''status'', JStr ''success''), (''message'', JStr action_message),
                            (''device'', dev_name),
                            (''total_active_installs'', JInt (total_active_installs rows'))] 200,
                         rows'))))))"

text \<open>\<^verbatim>\<open>track_uninstall\<close>, under \<^verbatim>\<open>@require_POST\<close>.\<close>

definition track_uninstall :: "request \<Rightarrow> trackers \<Rightarrow> response \<times> trackers" where
  "track_uninstall req rows =
     (if request_method req \<noteq> ''POST'' then (HttpResponseNotAllowed, rows)
      else case body req of
        None \<Rightarrow>
          (JsonResponse [(''success'', JBool False), (''message'', JStr ''Invalid JSON'')] 400, rows)
      | Some data \<Rightarrow>
          (case dict_get data ''device_id'' of
             Inl e \<Rightarrow>
               (JsonResponse [(''success'', JBool False), (''message'', JStr ''Server error'')] 500,
                rows)
           | Inr device_id_str \<Rightarrow>
               if \<not> truthy device_id_str then
                 (JsonResponse
                    [(''success'', JBool False), (''message'', JStr ''Device ID is required'')] 400,
                  rows)
               else
                 (case objects_get rows device_id_str of
                    None \<Rightarrow>
                      (JsonResponse
                         [(''success'', JBool True),
                          (''message'', JStr ''Tracker not found, but uninstall acknowledged'')] 200,
                       rows)
                  | Some t \<Rightarrow>
                      (let rows' =
                             (if install_count t = 1 then
                                save (t\<lparr>install_count := 0, deleted_count := deleted_count t + 1,
                                         last_action := ''uninstall'', updated_at := now req\<rparr>) rows
                              else rows)
                       in
                       (JsonResponse
                          [(''success'', JBool True), (''message'', JStr ''Uninstall tracked''),
                           (''total_active_installs'', JInt (total_active_installs rows'))] 200,
                        rows')))))"

text \<open>A call of one of the two endpoints, and a sequence of calls run on a table.\<close>

datatype call = Install request | Uninstall request

fun run_call :: "call \<Rightarrow> trackers \<Rightarrow> trackers" where
  "run_call (Install req) rows = snd (track_install req rows)"
| "run_call (Uninstall req) rows = snd (track_uninstall req rows)"

fun run_calls :: "call list \<Rightarrow> trackers \<Rightarrow> trackers" where
  "run_calls [] rows = rows"
| "run_calls (c # cs) rows = run_calls cs (run_call c rows)"

section \<open>The catalogue\<close>

text \<open>
  The rows of the catalogue tables, with the fields the views read or write (the model
  classes are not part of the sources), and the stored state as a whole.
\<close>

record playlist =
  playlist_id :: nat
  playlist_name :: string
  playlist_category :: "nat option"

record movie =
  movie_id :: nat
  title :: "string option"
  download_link :: string
  movie_playlist :: "nat option"
  movie_category :: "nat option"

record download_log =
  movie_title :: "string option"
  ip_address :: "string option"
  log_user_agent :: string
  user_email :: "string option"
  username :: "string option"
  download_time :: nat

record database =
  playlists :: "playlist list"
  movies :: "movie list"
  download_logs :: "download_log list"
  install_trackers :: trackers

text \<open>
  The outcome of a view that renders a template: \<^verbatim>\<open>get_object_or_404\<close> raised, or the
  context handed to the template.
\<close>

datatype 'a rendered = Http404 | Render 'a

text \<open>
  \<^verbatim>\<open>playlist_detail\<close>.  \<open>has_numeric_order\<close> is the loop with its \<^verbatim>\<open>break\<close>, run on
  \<^verbatim>\<open>movies[:5]\<close>; \<^verbatim>\<open>list.sort(key=...)\<close> is a stable ascending sort, as \<^const>\<open>sort_key\<close> is;
  pairs are compared lexicographically.
\<close>

fun has_numeric_order :: "movie list \<Rightarrow> bool" where
  "has_numeric_order [] = False"
| "has_numeric_order (m # ms) =
     (if extract_movie_order_number (title m) \<noteq> 9999 then True else has_numeric_order ms)"

definition playlist_detail :: "database \<Rightarrow> nat \<Rightarrow> (playlist \<times> movie list) rendered" where
  "playlist_detail db pid =
     (case find (\<lambda>p. playlist_id p = pid) (playlists db) of
        None \<Rightarrow> Http404
      | Some pl \<Rightarrow>
          (let ms = filter (\<lambda>m. movie_playlist m = Some pid) (movies db) in
           if has_numeric_order (take 5 ms)
           then Render (pl, sort_key (\<lambda>m. extract_movie_order_number (title m)) ms)
           else Render (pl, sort_key (\<lambda>m. extract_episode_number (title m)) ms)))"

section \<open>Pagination\<close>










section \<open>Downloads\<close>



section \<open>Auxiliary notions and sample data\<close>

text \<open>
  How one call may leave a row that is in the table: as it was, re-installed or re-opened
  by an install, or uninstalled.
\<close>

definition row_kept :: "call \<Rightarrow> tracker \<Rightarrow> tracker \<Rightarrow> bool" where
  "row_kept c r r' =
     (device_id r' = device_id r \<and>
      (r' = r \<or>
       ((\<exists>req. c = Install req) \<and> deleted_count r' = deleted_count r \<and>
        install_count r' = (if install_count r = 0 then 1 else install_count r)) \<or>
       ((\<exists>req. c = Uninstall req) \<and> install_count r = 1 \<and> install_count r' = 0 \<and>
        deleted_count r' = deleted_count r + 1)))"

text \<open>Sample requests, rows and tables for the concrete instances, and the two sort keys.\<close>

abbreviation post_device :: "string \<Rightarrow> json \<Rightarrow> nat \<Rightarrow> request" where
  "post_device d name n \<equiv>
     \<lparr>request_method = ''POST'',
      body = Some (JDict [(''device_id'', JStr d), (''device_name'', name)]),
      http_user_agent = Some ''Mozilla/5.0 (Linux; Android 14)'', http_x_forwarded_for = None,
      remote_addr = Some ''10.0.0.7'', user = None, get_page_param = None, now = n\<rparr>"


abbreviation phone :: tracker where
  "phone \<equiv> \<lparr>device_id = JStr ''abc'', install_count = 1, deleted_count = 3,
      device_name = JStr ''Android'', device_info = ''Mozilla/5.0 (Linux; Android 14)'',
      last_action = ''install'', updated_at = 2\<rparr>"

abbreviation order_key :: "movie \<Rightarrow> int" where
  "order_key m \<equiv> extract_movie_order_number (title m)"

abbreviation episode_key :: "movie \<Rightarrow> int \<times> int" where
  "episode_key m \<equiv> extract_episode_number (title m)"

abbreviation ep :: "nat \<Rightarrow> string \<Rightarrow> movie" where
  "ep i t \<equiv> \<lparr>movie_id = i, title = Some t, download_link = ''https://files.example/m.mkv'',
              movie_playlist = Some 1, movie_category = None\<rparr>"

abbreviation shelf :: database where
  "shelf \<equiv> \<lparr>playlists = [\<lparr>playlist_id = 1, playlist_name = ''Show'', playlist_category = None\<rparr>],
             movies = [ep 1 ''S1 E3'', ep 2 ''S1 E1'', ep 3 ''2. Pilot''],
             download_logs = [], install_trackers = []\<rparr>"


section \<open>Properties of install tracking\<close>

lemma objects_get_SomeD: "objects_get rows d = Some t \<Longrightarrow> device_id t = d \<and> t \<in> set rows"
  by (induction rows) (auto simp: objects_get_def split: if_splits)

lemma length_save: "length (save t rows) = length rows"
  by (induction rows) auto

lemma save_nth:
  "i < length rows \<Longrightarrow>
     save t rows ! i = rows ! i \<or>
     (save t rows ! i = t \<and> objects_get rows (device_id t) = Some (rows ! i))"
proof (induction rows arbitrary: i)
  case Nil
  then show ?case by simp
next
  case (Cons r rows)
  show ?case
  proof (cases i)
    case 0
    then show ?thesis by (simp add: objects_get_def)
  next
    case (Suc j)
    with Cons.prems have "j < length rows" by simp
    from Cons.IH [OF this] Suc show ?thesis
      by (auto simp: objects_get_def)
  qed
qed

lemma dict_get_name_ok: "dict_get data k = Inr v \<Longrightarrow> \<exists>w. dict_get data k' = Inr w"
  by (cases data) (auto split: option.splits)

lemma track_install_accepted:
  assumes "request_method req = ''POST''" "body req = Some data"
    "dict_get data ''device_id'' = Inr d" "dict_get data ''device_name'' = Inr name" "truthy d"
  shows "snd (track_install req rows) =
     (let dev_name = (if truthy name then name else JStr (detect_device_name (user_agent req)))
      in case objects_get rows d of
        None \<Rightarrow> rows @ [\<lparr>device_id = d, install_count = 1, deleted_count = 0,
                  device_name = dev_name, device_info = user_agent req,
                  last_action = ''install'', updated_at = now req\<rparr>]
      | Some t \<Rightarrow>
          if install_count t = 0
          then save (t\<lparr>install_count := 1, device_name := dev_name,
                      last_action := ''reinstall'', updated_at := now req\<rparr>) rows
          else save (t\<lparr>last_action := ''install (re-open)'', device_name := dev_name,
                      updated_at := now req\<rparr>) rows)"
  using assms by (simp add: track_install_def Let_def split: option.splits)

lemma track_install_rejected:
  assumes "\<not> (request_method req = ''POST'' \<and>
     (\<exists>data d. body req = Some data \<and> dict_get data ''device_id'' = Inr d \<and> truthy d))"
  shows "snd (track_install req rows) = rows"
  using assms by (auto simp: track_install_def Let_def split: option.splits sum.splits)

lemma track_uninstall_accepted:
  assumes "request_method req = ''POST''" "body req = Some data"
    "dict_get data ''device_id'' = Inr d" "truthy d"
  shows "snd (track_uninstall req rows) =
     (case objects_get rows d of
        None \<Rightarrow> rows
      | Some t \<Rightarrow>
          if install_count t = 1
          then save (t\<lparr>install_count := 0, deleted_count := deleted_count t + 1,
                      last_action := ''uninstall'', updated_at := now req\<rparr>) rows
          else rows)"
  using assms by (simp add: track_uninstall_def Let_def split: option.splits)

lemma track_uninstall_rejected:
  assumes "\<not> (request_method req = ''POST'' \<and>
     (\<exists>data d. body req = Some data \<and> dict_get data ''device_id'' = Inr d \<and> truthy d))"
  shows "snd (track_uninstall req rows) = rows"
  using assms by (auto simp: track_uninstall_def Let_def split: option.splits sum.splits)

lemma save_row:
  assumes "i < length rows" "objects_get rows d = Some t" "device_id t' = d"
    "row_kept c t t'"
  shows "row_kept c (rows ! i) (save t' rows ! i)"
proof -
  from save_nth [OF assms(1), of t']
  consider "save t' rows ! i = rows ! i"
    | "save t' rows ! i = t'" "objects_get rows (device_id t') = Some (rows ! i)"
    by blast
  then show ?thesis
  proof cases
    case 1
    then show ?thesis by (simp add: row_kept_def)
  next
    case 2
    with assms(2,3) have "rows ! i = t" by simp
    with 2 assms(4) show ?thesis by simp
  qed
qed

lemma track_install_row:
  assumes "i < length rows"
  shows "i < length (snd (track_install req rows)) \<and>
         row_kept (Install req) (rows ! i) (snd (track_install req rows) ! i)"
proof (cases "request_method req = ''POST'' \<and>
     (\<exists>data d. body req = Some data \<and> dict_get data ''device_id'' = Inr d \<and> truthy d)")
  case False
  from track_install_rejected [OF this] assms show ?thesis
    by (simp add: row_kept_def)
next
  case True
  then obtain data d where a: "request_method req = ''POST''" "body req = Some data"
    "dict_get data ''device_id'' = Inr d" "truthy d" by blast
  from dict_get_name_ok [OF a(3)] obtain name where n: "dict_get data ''device_name'' = Inr name"
    by blast
  note eq = track_install_accepted [OF a(1,2,3) n a(4), of rows]
  show ?thesis
  proof (cases "objects_get rows d")
    case None
    with eq assms show ?thesis
      by (simp add: Let_def nth_append row_kept_def)
  next
    case (Some t)
    have d: "device_id t = d" using Some by (simp add: objects_get_SomeD)
    define dev_name
      where "dev_name = (if truthy name then name else JStr (detect_device_name (user_agent req)))"
    define t' where "t' =
      (if install_count t = 0
       then t\<lparr>install_count := 1, device_name := dev_name,
               last_action := ''reinstall'', updated_at := now req\<rparr>
       else t\<lparr>last_action := ''install (re-open)'', device_name := dev_name,
               updated_at := now req\<rparr>)"
    from eq Some have s: "snd (track_install req rows) = save t' rows"
      by (simp add: Let_def t'_def dev_name_def)
    have k: "row_kept (Install req) t t'" and d': "device_id t' = d"
      using d by (simp_all add: row_kept_def t'_def)
    from save_row [OF assms Some d' k] s assms show ?thesis
      by (simp add: length_save)
  qed
qed

lemma track_uninstall_row:
  assumes "i < length rows"
  shows "length (snd (track_uninstall req rows)) = length rows \<and>
         row_kept (Uninstall req) (rows ! i) (snd (track_uninstall req rows) ! i)"
proof (cases "request_method req = ''POST'' \<and>
     (\<exists>data d. body req = Some data \<and> dict_get data ''device_id'' = Inr d \<and> truthy d)")
  case False
  from track_uninstall_rejected [OF this] assms show ?thesis
    by (simp add: row_kept_def)
next
  case True
  then obtain data d where a: "request_method req = ''POST''" "body req = Some data"
    "dict_get data ''device_id'' = Inr d" "truthy d" by blast
  note eq = track_uninstall_accepted [OF a, of rows]
  show ?thesis
  proof (cases "objects_get rows d")
    case None
    with eq assms show ?thesis by (simp add: row_kept_def)
  next
    case (Some t)
    have d: "device_id t = d" using Some by (simp add: objects_get_SomeD)
    show ?thesis
    proof (cases "install_count t = 1")
      case True
      define t' where "t' = t\<lparr>install_count := 0, deleted_count := deleted_count t + 1,
                      last_action := ''uninstall'', updated_at := now req\<rparr>"
      from eq Some True have s: "snd (track_uninstall req rows) = save t' rows"
        by (simp add: t'_def)
      have k: "row_kept (Uninstall req) t t'" and d': "device_id t' = d"
        using d True by (simp_all add: row_kept_def t'_def)
      from save_row [OF assms Some d' k] s show ?thesis
        by (simp add: length_save)
    next
      case False
      with eq Some assms show ?thesis by (simp add: row_kept_def)
    qed
  qed
qed

lemma track_uninstall_length: "length (snd (track_uninstall req rows)) = length rows"
proof (cases "request_method req = ''POST'' \<and>
     (\<exists>data d. body req = Some data \<and> dict_get data ''device_id'' = Inr d \<and> truthy d)")
  case False
  from track_uninstall_rejected [OF this] show ?thesis by simp
next
  case True
  then obtain data d where a: "request_method req = ''POST''" "body req = Some data"
    "dict_get data ''device_id'' = Inr d" "truthy d" by blast
  from track_uninstall_accepted [OF a, of rows] show ?thesis
    by (simp add: length_save split: option.splits)
qed

lemma track_install_new_row:
  assumes "length rows \<le> i" "i < length (snd (track_install req rows))"
  shows "install_count (snd (track_install req rows) ! i) = 1 \<and>
         deleted_count (snd (track_install req rows) ! i) = 0"
proof (cases "request_method req = ''POST'' \<and>
     (\<exists>data d. body req = Some data \<and> dict_get data ''device_id'' = Inr d \<and> truthy d)")
  case False
  from track_install_rejected [OF this] assms show ?thesis by simp
next
  case True
  then obtain data d where a: "request_method req = ''POST''" "body req = Some data"
    "dict_get data ''device_id'' = Inr d" "truthy d" by blast
  from dict_get_name_ok [OF a(3)] obtain name where n: "dict_get data ''device_name'' = Inr name"
    by blast
  note eq = track_install_accepted [OF a(1,2,3) n a(4), of rows]
  show ?thesis
  proof (cases "objects_get rows d")
    case None
    with eq assms have "i = length rows" by (simp add: Let_def)
    with eq None show ?thesis by (simp add: Let_def)
  next
    case (Some t)
    with eq assms show ?thesis by (simp add: Let_def length_save split: if_splits)
  qed
qed

lemma run_call_row:
  assumes "i < length rows"
  shows "i < length (run_call c rows) \<and> row_kept c (rows ! i) (run_call c rows ! i)"
proof (cases c)
  case (Install req)
  with track_install_row [OF assms, of req] show ?thesis by simp
next
  case (Uninstall req)
  with track_uninstall_row [OF assms, of req] assms show ?thesis by simp
qed

lemma run_call_new_row:
  assumes "length rows \<le> i" "i < length (run_call c rows)"
  shows "install_count (run_call c rows ! i) = 1 \<and> deleted_count (run_call c rows ! i) = 0"
proof (cases c)
  case (Install req)
  with track_install_new_row [of rows i req] assms show ?thesis by simp
next
  case (Uninstall req)
  with assms track_uninstall_length [of req rows] show ?thesis by simp
qed

lemma run_call_counts:
  assumes "\<forall>t \<in> set rows. install_count t = 0 \<or> install_count t = 1"
  shows "\<forall>t \<in> set (run_call c rows). install_count t = 0 \<or> install_count t = 1"
proof
  fix t assume "t \<in> set (run_call c rows)"
  then obtain i where i: "i < length (run_call c rows)" "t = run_call c rows ! i"
    by (auto simp: in_set_conv_nth)
  show "install_count t = 0 \<or> install_count t = 1"
  proof (cases "i < length rows")
    case True
    from run_call_row [OF True, of c] have "row_kept c (rows ! i) t" using i by simp
    moreover from assms True have "install_count (rows ! i) = 0 \<or> install_count (rows ! i) = 1"
      by simp
    ultimately show ?thesis by (auto simp: row_kept_def split: if_splits)
  next
    case False
    with run_call_new_row [of rows i c] i show ?thesis by simp
  qed
qed

lemma run_calls_counts:
  "\<forall>t \<in> set rows. install_count t = 0 \<or> install_count t = 1 \<Longrightarrow>
   \<forall>t \<in> set (run_calls cs rows). install_count t = 0 \<or> install_count t = 1"
proof (induction cs arbitrary: rows)
  case Nil
  then show ?case by simp
next
  case (Cons c cs)
  from Cons.IH [OF run_call_counts [OF Cons.prems, of c]] show ?case by simp
qed

lemma run_calls_row:
  "i < length rows \<Longrightarrow>
   i < length (run_calls cs rows) \<and> device_id (run_calls cs rows ! i) = device_id (rows ! i) \<and>
   deleted_count (rows ! i) \<le> deleted_count (run_calls cs rows ! i)"
proof (induction cs arbitrary: rows)
  case Nil
  then show ?case by simp
next
  case (Cons c cs)
  from run_call_row [OF Cons.prems, of c]
  have 1: "i < length (run_call c rows)" and 2: "row_kept c (rows ! i) (run_call c rows ! i)"
    by simp_all
  from 2 have "device_id (run_call c rows ! i) = device_id (rows ! i)"
    "deleted_count (rows ! i) \<le> deleted_count (run_call c rows ! i)"
    by (auto simp: row_kept_def)
  with Cons.IH [OF 1] show ?case by simp
qed

lemma objects_get_append:
  "objects_get (rows @ [t]) d =
     (case objects_get rows d of Some r \<Rightarrow> Some r
      | None \<Rightarrow> if device_id t = d then Some t else None)"
  by (induction rows) (auto simp: objects_get_def)

lemma objects_get_save:
  "device_id t' = d' \<Longrightarrow>
   objects_get (save t' rows) d =
     (if d = d' \<and> objects_get rows d \<noteq> None then Some t' else objects_get rows d)"
  by (induction rows) (auto simp: objects_get_def)

text \<open>
  Claim C1.  Over any sequence of \<^verbatim>\<open>track_install\<close> and \<^verbatim>\<open>track_uninstall\<close> calls,
  started on a table whose rows have \<open>install_count\<close> 0 or 1, every row has
  \<open>install_count\<close> 0 or 1; every row stays in the table, under its key, and its
  \<open>deleted_count\<close> never decreases.  A row that a call creates starts with
  \<open>install_count\<close> 1 and \<open>deleted_count\<close> 0, and the only call that changes the
  \<open>deleted_count\<close> of a row is an uninstall that takes its \<open>install_count\<close> from 1 to 0,
  which adds one.
\<close>

theorem install_tracker_counts:
  assumes "\<forall>t \<in> set rows. install_count t = 0 \<or> install_count t = 1"
  shows "(\<forall>t \<in> set (run_calls cs rows). install_count t = 0 \<or> install_count t = 1) \<and>
    (\<forall>i < length rows. i < length (run_calls cs rows) \<and>
        device_id (run_calls cs rows ! i) = device_id (rows ! i) \<and>
        deleted_count (rows ! i) \<le> deleted_count (run_calls cs rows ! i)) \<and>
    (\<forall>i. length rows \<le> i \<and> i < length (run_call c rows) \<longrightarrow>
        install_count (run_call c rows ! i) = 1 \<and> deleted_count (run_call c rows ! i) = 0) \<and>
    (\<forall>i < length rows. deleted_count (run_call c rows ! i) \<noteq> deleted_count (rows ! i) \<longrightarrow>
        (\<exists>req. c = Uninstall req) \<and> install_count (rows ! i) = 1 \<and>
        install_count (run_call c rows ! i) = 0 \<and>
        deleted_count (run_call c rows ! i) = deleted_count (rows ! i) + 1)"
proof (intro conjI)
  show "\<forall>t \<in> set (run_calls cs rows). install_count t = 0 \<or> install_count t = 1"
    using assms by (rule run_calls_counts)
  show "\<forall>i < length rows. i < length (run_calls cs rows) \<and>
        device_id (run_calls cs rows ! i) = device_id (rows ! i) \<and>
        deleted_count (rows ! i) \<le> deleted_count (run_calls cs rows ! i)"
    using run_calls_row by blast
  show "\<forall>i. length rows \<le> i \<and> i < length (run_call c rows) \<longrightarrow>
        install_count (run_call c rows ! i) = 1 \<and> deleted_count (run_call c rows ! i) = 0"
    using run_call_new_row by blast
  show "\<forall>i < length rows. deleted_count (run_call c rows ! i) \<noteq> deleted_count (rows ! i) \<longrightarrow>
        (\<exists>req. c = Uninstall req) \<and> install_count (rows ! i) = 1 \<and>
        install_count (run_call c rows ! i) = 0 \<and>
        deleted_count (run_call c rows ! i) = deleted_count (rows ! i) + 1"
  proof (intro allI impI)
    fix i assume "i < length rows"
      and ne: "deleted_count (run_call c rows ! i) \<noteq> deleted_count (rows ! i)"
    from run_call_row [OF this(1), of c] have "row_kept c (rows ! i) (run_call c rows ! i)"
      by simp
    with ne show "(\<exists>req. c = Uninstall req) \<and> install_count (rows ! i) = 1 \<and>
        install_count (run_call c rows ! i) = 0 \<and>
        deleted_count (run_call c rows ! i) = deleted_count (rows ! i) + 1"
      by (auto simp: row_kept_def)
  qed
qed

theorem install_tracker_counts_witness:
  "install_count phone = 1 \<and>
   install_count
     (run_calls [Uninstall (post_device ''abc'' JNull 7), Install (post_device ''abc'' JNull 8)]
        [phone] ! 0) = 1 \<and>
   deleted_count phone
     \<le> deleted_count
         (run_calls [Uninstall (post_device ''abc'' JNull 7), Install (post_device ''abc'' JNull 8)]
            [phone] ! 0) \<and>
   deleted_count (run_call (Uninstall (post_device ''abc'' JNull 7)) [phone] ! 0) = 4"
  using install_tracker_counts
    [of "[phone]"
        "[Uninstall (post_device ''abc'' JNull 7), Install (post_device ''abc'' JNull 8)]"
        "Uninstall (post_device ''abc'' JNull 7)"]
  by (simp add: track_install_def track_uninstall_def objects_get_def total_active_installs_def
        detect_device_name_def user_agent_def lower_def lower_char_def Let_def)

text \<open>
  Claim C4.  From a table with no row for a device, \<^verbatim>\<open>track_install\<close>, then
  \<^verbatim>\<open>track_uninstall\<close>, then \<^verbatim>\<open>track_install\<close>, each a POST whose body is a JSON
  object carrying that (non-empty) device id, leave the device's row with
  \<open>install_count\<close> 1 and \<open>deleted_count\<close> 1.
\<close>

theorem install_uninstall_install:
  assumes none: "objects_get rows d = None" and d: "truthy d"
    and r1: "request_method r1 = ''POST''" "body r1 = Some data1" "dict_get data1 ''device_id'' = Inr d"
    and r2: "request_method r2 = ''POST''" "body r2 = Some data2" "dict_get data2 ''device_id'' = Inr d"
    and r3: "request_method r3 = ''POST''" "body r3 = Some data3" "dict_get data3 ''device_id'' = Inr d"
  shows "\<exists>t. objects_get (run_calls [Install r1, Uninstall r2, Install r3] rows) d = Some t \<and>
             install_count t = 1 \<and> deleted_count t = 1"
proof -
  from dict_get_name_ok [OF r1(3)] obtain n1 where n1: "dict_get data1 ''device_name'' = Inr n1"
    by blast
  from dict_get_name_ok [OF r3(3)] obtain n3 where n3: "dict_get data3 ''device_name'' = Inr n3"
    by blast
  define rows1 where "rows1 = snd (track_install r1 rows)"
  define rows2 where "rows2 = snd (track_uninstall r2 rows1)"
  define rows3 where "rows3 = snd (track_install r3 rows2)"
  from track_install_accepted [OF r1 n1 d, of rows] none
  obtain t1 where t1: "rows1 = rows @ [t1]" "device_id t1 = d" "install_count t1 = 1"
    "deleted_count t1 = 0"
    by (simp add: rows1_def Let_def)
  from t1 none have g1: "objects_get rows1 d = Some t1"
    by (simp add: objects_get_append)
  from track_uninstall_accepted [OF r2 d, of rows1] g1 t1
  obtain t2 where t2: "rows2 = save t2 rows1" "device_id t2 = d" "install_count t2 = 0"
    "deleted_count t2 = 1"
    by (simp add: rows2_def)
  from t2 g1 have g2: "objects_get rows2 d = Some t2"
    by (simp add: objects_get_save)
  from track_install_accepted [OF r3 n3 d, of rows2] g2 t2
  obtain t3 where t3: "rows3 = save t3 rows2" "device_id t3 = d" "install_count t3 = 1"
    "deleted_count t3 = 1"
    by (simp add: rows3_def Let_def)
  from t3 g2 have "objects_get rows3 d = Some t3"
    by (simp add: objects_get_save)
  with t3 show ?thesis
    by (simp add: rows1_def rows2_def rows3_def)
qed

theorem install_uninstall_install_witness:
  "\<exists>t. objects_get
         (run_calls [Install (post_device ''abc'' JNull 1), Uninstall (post_device ''abc'' JNull 2),
                     Install (post_device ''abc'' (JStr ''Tablet'') 3)] []) (JStr ''abc'') = Some t \<and>
       install_count t = 1 \<and> deleted_count t = 1"
  by (rule install_uninstall_install [where ?data1.0 = "JDict [(''device_id'', JStr ''abc''), (''device_name'', JNull)]"
        and ?data2.0 = "JDict [(''device_id'', JStr ''abc''), (''device_name'', JNull)]"
        and ?data3.0 = "JDict [(''device_id'', JStr ''abc''), (''device_name'', JStr ''Tablet'')]"])
     (simp_all add: objects_get_def)

text \<open>
  Claim C8, as the code has it.  For a row whose \<open>install_count\<close> is already 1, a repeated
  \<^verbatim>\<open>track_install\<close> for its device changes the fields \<open>last_action\<close>,
  \<open>updated_at\<close> and \<open>device_name\<close> of that row (the last to the device name of the
  request) and nothing else: the other fields of the row, the rows of the other devices and
  the number of rows are as before.
\<close>

theorem repeated_install_frame:
  assumes t: "objects_get rows d = Some t" and c: "install_count t = 1"
    and r: "request_method req = ''POST''" "body req = Some data" "dict_get data ''device_id'' = Inr d"
      "dict_get data ''device_name'' = Inr name"
    and d: "truthy d"
  shows "objects_get (snd (track_install req rows)) d =
           Some (t\<lparr>last_action := ''install (re-open)'',
                   device_name :=
                     (if truthy name then name else JStr (detect_device_name (user_agent req))),
                   updated_at := now req\<rparr>) \<and>
         (\<forall>d'. d' \<noteq> d \<longrightarrow> objects_get (snd (track_install req rows)) d' = objects_get rows d') \<and>
         length (snd (track_install req rows)) = length rows"
proof -
  have "device_id t = d" using t by (simp add: objects_get_SomeD)
  with track_install_accepted [OF r d, of rows] t c show ?thesis
    by (simp add: Let_def objects_get_save length_save)
qed

theorem repeated_install_frame_witness:
  "objects_get (snd (track_install (post_device ''abc'' (JStr ''Mac'') 9) [phone])) (JStr ''abc'') =
     Some (phone\<lparr>last_action := ''install (re-open)'', device_name := JStr ''Mac'',
                 updated_at := 9\<rparr>)"
  using repeated_install_frame
    [of "[phone]" "JStr ''abc''" phone "post_device ''abc'' (JStr ''Mac'') 9"
        "JDict [(''device_id'', JStr ''abc''), (''device_name'', JStr ''Mac'')]" "JStr ''Mac''"]
  by (simp add: objects_get_def)

text \<open>
  The claim as worded lists \<open>device_name\<close> among the unchanged fields; the re-open branch
  assigns it.
\<close>

theorem repeated_install_device_name_counterexample:
  "objects_get [phone] (JStr ''abc'') = Some phone \<and> install_count phone = 1 \<and>
   objects_get (snd (track_install (post_device ''abc'' (JStr ''Mac'') 9) [phone])) (JStr ''abc'') =
     Some (phone\<lparr>last_action := ''install (re-open)'', device_name := JStr ''Mac'',
                 updated_at := 9\<rparr>) \<and>
   device_name (phone\<lparr>last_action := ''install (re-open)'', device_name := JStr ''Mac'',
                 updated_at := 9\<rparr>) \<noteq> device_name phone"
  by (simp add: track_install_def objects_get_def total_active_installs_def Let_def)




section \<open>Properties of the title helpers\<close>



lemma digit_not_int_space: "is_digit c \<Longrightarrow> \<not> is_int_space c"
  by (auto simp: is_digit_def is_int_space_def)

lemma digits_ok_digits: "ds \<noteq> [] \<Longrightarrow> \<forall>d \<in> set ds. is_digit d \<Longrightarrow> digits_ok ds"
proof (induction ds rule: digits_ok.induct)
  case 1
  then show ?case by simp
next
  case (2 c)
  then show ?case by simp
next
  case (3 c d cs)
  then have "d \<noteq> CHR ''_''" by (auto simp: is_digit_def)
  with 3 show ?case by simp
qed

lemma dropWhile_none: "\<forall>x \<in> set xs. \<not> P x \<Longrightarrow> dropWhile P xs = xs"
  by (cases xs) auto

lemma dropWhile_rev_digits:
  assumes "\<forall>d \<in> set ds. is_digit d"
  shows "rev (dropWhile is_int_space (rev (dropWhile is_int_space ds))) = ds"
proof -
  from assms have n: "\<forall>d \<in> set ds. \<not> is_int_space d"
    by (simp add: digit_not_int_space)
  then have "dropWhile is_int_space ds = ds" by (rule dropWhile_none)
  moreover from n have "dropWhile is_int_space (rev ds) = rev ds"
    by (intro dropWhile_none) simp
  ultimately show ?thesis by simp
qed

lemma py_int_digits:
  assumes "ds \<noteq> []" "\<forall>d \<in> set ds. is_digit d"
  shows "py_int ds = Some (dec_value ds)"
proof -
  obtain c cs where ds: "ds = c # cs" using assms(1) by (cases ds) auto
  with assms(2) have c: "c \<noteq> CHR ''-''" "c \<noteq> CHR ''+''" by (auto simp: is_digit_def)
  have f: "filter (\<lambda>c. c \<noteq> CHR ''_'') ds = ds"
    using assms(2) by (auto simp: is_digit_def filter_id_conv)
  show ?thesis
    unfolding py_int_def dropWhile_rev_digits [OF assms(2)]
    using c digits_ok_digits [OF assms] f by (simp add: ds)
qed




lemma many_class_skip:
  assumes fail: "\<And>q x xs g. in_cls c x \<Longrightarrow> k (q, x # xs, g) = []"
    and ds: "\<forall>d \<in> set ds. in_cls c d"
    and rest: "rest = [] \<or> \<not> in_cls c (hd rest)"
    and n: "length ds \<le> n"
  shows "concat (map k (many (step_char (in_cls c)) n (p, ds @ rest, g))) =
         k (last (p # map Some ds), rest, g)"
  using ds n
proof (induction ds arbitrary: p n)
  case Nil
  from rest have "step_char (in_cls c) (p, rest, g) = []"
    by (cases rest) auto
  then show ?case by (cases n) simp_all
next
  case (Cons d ds)
  then obtain m where m: "n = Suc m" "length ds \<le> m" by (cases n) auto
  from Cons.prems have d: "in_cls c d" by simp
  have "concat (map k (many (step_char (in_cls c)) m (Some d, ds @ rest, g))) =
        k (last (Some d # map Some ds), rest, g)"
    using Cons.IH [of m "Some d"] Cons.prems m by simp
  moreover have "k (p, d # ds @ rest, g) = []"
    using fail [OF d] .
  ultimately show ?case using m d by simp
qed

lemma many_class_first:
  assumes ds: "\<forall>d \<in> set ds. in_cls c d"
    and rest: "rest = [] \<or> \<not> in_cls c (hd rest)"
    and n: "length ds \<le> n"
  shows "\<exists>tl. many (step_char (in_cls c)) n (p, ds @ rest, g) =
           (last (p # map Some ds), rest, g) # tl"
  using ds n
proof (induction ds arbitrary: p n)
  case Nil
  from rest have "step_char (in_cls c) (p, rest, g) = []"
    by (cases rest) auto
  then show ?case by (cases n) simp_all
next
  case (Cons d ds)
  then obtain m where m: "n = Suc m" "length ds \<le> m" by (cases n) auto
  from Cons.prems have d: "in_cls c d" by simp
  from Cons.IH [of m "Some d"] Cons.prems m
  obtain tl where "many (step_char (in_cls c)) m (Some d, ds @ rest, g) =
      (last (Some d # map Some ds), rest, g) # tl"
    by auto
  then show ?case using m d by simp
qed

lemma group_many1_digit_first:
  assumes ds: "\<forall>d \<in> set ds. is_digit d" "ds \<noteq> []"
    and rest: "rest = [] \<or> \<not> is_digit (hd rest)"
  shows "\<exists>tl. rmatch (Grp (Many1 (Cls Digit))) (p, ds @ rest, g) = (Some (last ds), rest, ds) # tl"
proof -
  from ds obtain d ds' where c: "ds = d # ds'" by (cases ds) auto
  with ds have d: "in_cls Digit d" "\<forall>d \<in> set ds'. in_cls Digit d" by simp_all
  from rest have r: "rest = [] \<or> \<not> in_cls Digit (hd rest)" by simp
  from many_class_first [OF d(2) r, of "length (ds' @ rest)" "Some d" g]
  obtain tl where "many (step_char (in_cls Digit)) (length (ds' @ rest)) (Some d, ds' @ rest, g) =
      (last (Some d # map Some ds'), rest, g) # tl"
    by auto
  moreover have "last (Some d # map Some ds') = Some (last (d # ds'))"
    by (simp add: last_map)
  ultimately show ?thesis using d(1) c by simp
qed

lemma lit_fail: "x \<noteq> c \<Longrightarrow> rmatch (lit (c # cs)) (p, x # xs, g) = []"
  by (simp add: lit_def)

lemma digit_not_space: "is_digit x \<Longrightarrow> \<not> is_space x"
  by (auto simp: is_digit_def is_space_def)

text \<open>
  The episode pattern at an \<^verbatim>\<open>e\<close> that is followed by blanks (possibly none) and a run of
  digits: it matches there, whatever stands before the \<^verbatim>\<open>e\<close>, and captures the whole run.
\<close>

lemma match_at_episode_re:
  assumes ws: "\<forall>w \<in> set ws. is_space w"
    and ds: "\<forall>d \<in> set ds. is_digit d" "ds \<noteq> []"
    and rest: "rest = [] \<or> \<not> is_digit (hd rest)"
  shows "match_at episode_re p (CHR ''e'' # ws @ ds @ rest) =
           Some \<lparr>group0 = CHR ''e'' # ws @ ds, group1 = ds\<rparr>"
proof -
  let ?G = "Grp (Many1 (Cls Digit))"
  obtain x xs where x: "ws @ ds @ rest = x # xs" "is_space x \<or> is_digit x"
    using ws ds by (cases ws; cases ds) auto
  then have "x \<noteq> CHR ''p''" by (auto simp: is_space_def is_digit_def)
  then have o: "rmatch (Opt (lit ''pisode'')) (Some CHR ''e'', ws @ ds @ rest, []) =
      [(Some CHR ''e'', ws @ ds @ rest, [])]"
    using lit_fail [of x "CHR ''p''" "''isode''"] x(1) by simp
  have fail: "\<And>q x xs g. in_cls Space x \<Longrightarrow> rmatch ?G (q, x # xs, g) = []"
    by (auto simp: digit_not_space)
  have w: "\<forall>w \<in> set ws. in_cls Space w" using ws by simp
  have r: "ds @ rest = [] \<or> \<not> in_cls Space (hd (ds @ rest))"
    using ds by (cases ds) (auto simp: digit_not_space)
  have "concat (map (rmatch ?G)
          (many (step_char (in_cls Space)) (length (ws @ ds @ rest))
             (Some CHR ''e'', ws @ ds @ rest, []))) =
        rmatch ?G (last (Some CHR ''e'' # map Some ws), ds @ rest, [])"
    by (rule many_class_skip [where k = "rmatch ?G" and c = Space, OF fail w r]) simp_all
  moreover from group_many1_digit_first [OF ds rest]
  obtain tl where "rmatch ?G (last (Some CHR ''e'' # map Some ws), ds @ rest, []) =
      (Some (last ds), rest, ds) # tl"
    by blast
  ultimately have "rmatch episode_re (p, CHR ''e'' # ws @ ds @ rest, []) =
      (Some (last ds), rest, ds) # tl"
    using o by (simp add: episode_re_def)
  then show ?thesis by (simp add: match_at_def)
qed

lemma search_from_skip:
  assumes "\<And>i. i < length pre \<Longrightarrow>
      match_at r (last (p # map Some (take i pre))) (drop i pre @ s) = None"
  shows "search_from r p (pre @ s) = search_from r (last (p # map Some pre)) s"
  using assms
proof (induction pre arbitrary: p)
  case Nil
  then show ?case by simp
next
  case (Cons x pre)
  from Cons.prems [of 0] have 0: "match_at r p (x # pre @ s) = None" by simp
  have "\<And>i. i < length pre \<Longrightarrow>
      match_at r (last (Some x # map Some (take i pre))) (drop i pre @ s) = None"
    using Cons.prems [of "Suc _"] by simp
  from Cons.IH [OF this] 0 show ?case by simp
qed

lemma re_search_episode_re:
  assumes t: "s = pre @ CHR ''e'' # ws @ ds @ rest"
    and ws: "\<forall>w \<in> set ws. is_space w"
    and ds: "\<forall>d \<in> set ds. is_digit d" "ds \<noteq> []"
    and rest: "rest = [] \<or> \<not> is_digit (hd rest)"
    and earlier: "\<And>i. i < length pre \<Longrightarrow>
      match_at episode_re (last (None # map Some (take i pre))) (drop i s) = None"
  shows "re_search episode_re s = Some \<lparr>group0 = CHR ''e'' # ws @ ds, group1 = ds\<rparr>"
proof -
  have "search_from episode_re None (pre @ CHR ''e'' # ws @ ds @ rest) =
        search_from episode_re (last (None # map Some pre)) (CHR ''e'' # ws @ ds @ rest)"
    by (rule search_from_skip) (use earlier t in simp)
  then show ?thesis
    using match_at_episode_re [OF ws ds rest] by (simp add: re_search_def t)
qed

text \<open>
  So when no earlier position of the lowered title matches the episode pattern, the digits
  after such an \<^verbatim>\<open>e\<close>, be it a letter inside a word, are the episode number returned,
  provided they do not denote 9999 in a title that also has a season marker.
\<close>

lemma inner_e_taken_as_episode:
  assumes t: "lower t = pre @ CHR ''e'' # ws @ ds @ rest"
    and ws: "\<forall>w \<in> set ws. is_space w"
    and ds: "\<forall>d \<in> set ds. is_digit d" "ds \<noteq> []"
    and rest: "rest = [] \<or> \<not> is_digit (hd rest)"
    and earlier: "\<And>i. i < length pre \<Longrightarrow>
      match_at episode_re (last (None # map Some (take i pre))) (drop i (lower t)) = None"
    and other: "dec_value ds \<noteq> 9999 \<or> re_search season_re (lower t) = None"
  shows "snd (extract_episode_number (Some t)) = dec_value ds"
proof -
  have m: "re_search episode_re (lower t) = Some \<lparr>group0 = CHR ''e'' # ws @ ds, group1 = ds\<rparr>"
    using re_search_episode_re [OF t ws ds rest earlier] .
  have i: "int_or ds 9999 = dec_value ds"
    using ds by (simp add: int_or_def py_int_digits)
  show ?thesis
    using other m i
    by (auto simp: extract_episode_number_def Let_def split: option.splits)
qed

lemma inner_e_taken_as_episode_example:
  "snd (extract_episode_number (Some ''Title 7'')) = 7"
proof -
  have l: "lower ''Title 7'' = ''titl'' @ CHR ''e'' # '' '' @ ''7'' @ []" by code_simp
  have e: "match_at episode_re (last (None # map Some (take i ''titl''))) (drop i (lower ''Title 7'')) = None"
    if "i < length ''titl''" for i
  proof -
    from that have "i = 0 \<or> i = 1 \<or> i = 2 \<or> i = 3" by auto
    moreover have "match_at episode_re (last (None # map Some (take 0 ''titl''))) (drop 0 (lower ''Title 7'')) = None"
      "match_at episode_re (last (None # map Some (take 1 ''titl''))) (drop 1 (lower ''Title 7'')) = None"
      "match_at episode_re (last (None # map Some (take 2 ''titl''))) (drop 2 (lower ''Title 7'')) = None"
      "match_at episode_re (last (None # map Some (take 3 ''titl''))) (drop 3 (lower ''Title 7'')) = None"
      by code_simp+
    ultimately show ?thesis by auto
  qed
  have d: "dec_value ''7'' = 7" by code_simp
  from inner_e_taken_as_episode [of "''Title 7''" "''titl''" "'' ''" "''7''" "[]", OF l _ _ _ _ e]
  show ?thesis by (simp add: d is_space_def is_digit_def)
qed

text \<open>
  Outside one case the code returns the pair as the specification words it: the case of a
  title with a season marker whose episode marker carries the number 9999.
\<close>

lemma extract_episode_number_by_markers:
  assumes "re_search season_re (lower (case title_arg of None \<Rightarrow> [] | Some t \<Rightarrow> t)) = None \<or>
           (\<forall>m. re_search episode_re (lower (case title_arg of None \<Rightarrow> [] | Some t \<Rightarrow> t)) = Some m
                \<longrightarrow> int_or (group1 m) 9999 \<noteq> 9999)"
  shows "extract_episode_number title_arg = episode_by_markers title_arg"
  using assms
  by (auto simp: extract_episode_number_def episode_by_markers_def Let_def split: option.splits)

text \<open>
  Claim C2, at the title \<^verbatim>\<open>s1 e9999 7\<close>.  The title has the explicit episode marker
  \<^verbatim>\<open>e9999\<close>, yet the episode returned is 7, the first standalone integer left after the
  season marker is removed: the test \<^verbatim>\<open>episode_num == 9999\<close> that guards the fallback
  cannot tell the marker's number 9999 from the default.
\<close>

theorem extract_episode_number_sentinel:
  "re_search episode_re (lower ''s1 e9999 7'') = Some \<lparr>group0 = ''e9999'', group1 = ''9999''\<rparr> \<and>
   re_search season_re (lower ''s1 e9999 7'') = Some \<lparr>group0 = ''s1'', group1 = ''1''\<rparr> \<and>
   episode_by_markers (Some ''s1 e9999 7'') = (1, 9999) \<and>
   extract_episode_number (Some ''s1 e9999 7'') = (1, 7)"
  by code_simp


text \<open>
  The examples given for \<^verbatim>\<open>extract_episode_number\<close>, the third being the one in which
  the \<^verbatim>\<open>e\<close> of an ordinary word is taken for the episode marker.
\<close>

lemma extract_episode_number_examples:
  "extract_episode_number (Some ''Season 2 Episode 5'') = (2, 5)"
  "extract_episode_number (Some ''random title'') = (1, 9999)"
  "extract_episode_number (Some ''Title 7'') = (1, 7)"
  "extract_episode_number (Some ''S02 - 13 final'') = (2, 13)"
  "extract_episode_number None = (1, 9999)"
  by code_simp+

section \<open>Properties of the catalogue views\<close>

lemma has_numeric_order_iff:
  "has_numeric_order ms = (\<exists>m \<in> set ms. extract_movie_order_number (title m) \<noteq> 9999)"
  by (induction ms) auto

text \<open>
  Claim C6.  For a playlist that exists, \<^verbatim>\<open>playlist_detail\<close> renders the playlist's movies
  rearranged: if one of the first five fetched movies has a leading order number other than
  9999, the whole list is sorted ascending (and stably) by
  \<^verbatim>\<open>extract_movie_order_number\<close>; otherwise, whatever the later movies carry, the whole
  list is sorted ascending by the (season, episode) pair of \<^verbatim>\<open>extract_episode_number\<close>.
\<close>

theorem playlist_detail_sorted:
  assumes "find (\<lambda>p. playlist_id p = pid) (playlists db) = Some pl"
  shows "\<exists>res. playlist_detail db pid = Render (pl, res) \<and>
     mset res = mset (filter (\<lambda>m. movie_playlist m = Some pid) (movies db)) \<and>
     (if \<exists>m \<in> set (take 5 (filter (\<lambda>m. movie_playlist m = Some pid) (movies db))).
           extract_movie_order_number (title m) \<noteq> 9999
      then res = sort_key order_key (filter (\<lambda>m. movie_playlist m = Some pid) (movies db)) \<and>
           sorted (map order_key res)
      else res = sort_key episode_key (filter (\<lambda>m. movie_playlist m = Some pid) (movies db)) \<and>
           sorted (map episode_key res))"
  using assms
  by (simp add: playlist_detail_def Let_def has_numeric_order_iff)

theorem playlist_detail_sorted_witness:
  "playlist_detail shelf 1 =
     Render (\<lparr>playlist_id = 1, playlist_name = ''Show'', playlist_category = None\<rparr>,
             [ep 3 ''2. Pilot'', ep 1 ''S1 E3'', ep 2 ''S1 E1''])"
proof -
  have k: "order_key (ep 1 ''S1 E3'') = 9999" "order_key (ep 2 ''S1 E1'') = 9999"
    "order_key (ep 3 ''2. Pilot'') = 2"
    by code_simp+
  from playlist_detail_sorted
    [of 1 shelf "\<lparr>playlist_id = 1, playlist_name = ''Show'', playlist_category = None\<rparr>"]
  show ?thesis using k by (simp add: insort_key.simps)
qed










end
